theory Spec2Isabelle
  imports Main "HOL-Library.Word"
begin

section \<open>JavaScript strings\<close>

text \<open>
  A JavaScript string is a sequence of 16-bit code units. String literals of the source
  are ASCII, so they are written with \<open>js\<close> from an Isabelle string literal.
\<close>

type_synonym code_unit = "16 word"
type_synonym jsstring = "code_unit list"

definition js :: "string \<Rightarrow> jsstring" where
  "js s = map of_char s"

text \<open>
  The code units that \<open>String.prototype.trim\<close> strips and that the class escape
  \<open>\s\<close> matches: ECMAScript's WhiteSpace (TAB, VT, FF, SP, NBSP, ZWNBSP and the
  characters of category Zs) and LineTerminator (LF, CR, LS, PS).
\<close>

definition is_whitespace :: "code_unit \<Rightarrow> bool" where
  "is_whitespace c =
     (c = 0x0009 \<or> c = 0x000A \<or> c = 0x000B \<or> c = 0x000C \<or> c = 0x000D \<or> c = 0x0020
      \<or> c = 0x00A0 \<or> c = 0x1680 \<or> (0x2000 \<le> c \<and> c \<le> 0x200A) \<or> c = 0x2028
      \<or> c = 0x2029 \<or> c = 0x202F \<or> c = 0x205F \<or> c = 0x3000 \<or> c = 0xFEFF)"

definition is_digit :: "code_unit \<Rightarrow> bool" where
  "is_digit c = (0x30 \<le> c \<and> c \<le> 0x39)"

definition is_lower :: "code_unit \<Rightarrow> bool" where
  "is_lower c = (0x61 \<le> c \<and> c \<le> 0x7A)"

definition is_upper :: "code_unit \<Rightarrow> bool" where
  "is_upper c = (0x41 \<le> c \<and> c \<le> 0x5A)"

text \<open>The class escape \<open>\w\<close>: ASCII letters, digits and the underscore.\<close>

definition is_word_char :: "code_unit \<Rightarrow> bool" where
  "is_word_char c = (is_lower c \<or> is_upper c \<or> is_digit c \<or> c = 0x5F)"

text \<open>\<open>String.prototype.trim\<close>: white space is removed from both ends.\<close>

definition trim :: "jsstring \<Rightarrow> jsstring" where
  "trim s = rev (dropWhile is_whitespace (rev (dropWhile is_whitespace s)))"

section \<open>Regular expressions\<close>

text \<open>
  The two regular expression literals of \<open>validateContactInfo\<close> are sequences of
  assertions and quantified atoms; an atom is a pattern character or a character class.
  The syntax tree below covers exactly these forms, and the matcher follows the
  backtracking semantics of the ECMAScript specification (a matcher takes the current
  position and a continuation for the rest of the pattern).
\<close>

datatype class_atom =
    ClassChar code_unit
  | ClassRange code_unit code_unit
  | ClassDigit
  | ClassWord
  | ClassSpace

datatype atom =
    PatternChar code_unit
  | CharClass "class_atom list"

datatype re_term =
    AssertStart
  | AssertEnd
  | Quantified atom nat "nat option"

record regexp =
  pattern :: "re_term list"
  ignoreCase :: bool

fun class_atom_set :: "class_atom \<Rightarrow> code_unit \<Rightarrow> bool" where
  "class_atom_set (ClassChar a) c = (c = a)"
| "class_atom_set (ClassRange lo hi) c = (lo \<le> c \<and> c \<le> hi)"
| "class_atom_set ClassDigit c = is_digit c"
| "class_atom_set ClassWord c = is_word_char c"
| "class_atom_set ClassSpace c = is_whitespace c"

fun atom_set :: "atom \<Rightarrow> code_unit \<Rightarrow> bool" where
  "atom_set (PatternChar a) c = (c = a)"
| "atom_set (CharClass as) c = list_ex (\<lambda>a. class_atom_set a c) as"

text \<open>
  Canonicalize, for a pattern without the \<open>u\<close> flag: with \<open>ignoreCase\<close> a code unit
  is replaced by its upper case. ECMAScript never lets a code unit outside ASCII
  canonicalize to an ASCII one, and every character the \<open>i\<close>-flagged pattern of this
  program names is ASCII, so only the mapping of ASCII letters can decide a match; code
  units outside ASCII are left as they are.
\<close>

definition canonicalize :: "bool \<Rightarrow> code_unit \<Rightarrow> code_unit" where
  "canonicalize ic c = (if ic \<and> is_lower c then c - 0x20 else c)"

text \<open>
  The code units with the same canonical form as \<open>c\<close>: \<open>c\<close> itself and, with
  \<open>ignoreCase\<close>, the letter of the other case.
\<close>

definition case_variants :: "bool \<Rightarrow> code_unit \<Rightarrow> code_unit list" where
  "case_variants ic c =
     (if ic \<and> is_lower c then [c, c - 0x20]
      else if ic \<and> is_upper c then [c, c + 0x20]
      else [c])"

text \<open>
  CharacterSetMatcher: the code unit matches when some member of the atom's set has the
  same canonical form.
\<close>

definition char_set_matcher :: "bool \<Rightarrow> atom \<Rightarrow> code_unit \<Rightarrow> bool" where
  "char_set_matcher ic a c = list_ex (atom_set a) (case_variants ic c)"

text \<open>
  RepeatMatcher for a greedy quantifier \<open>{mn,mx}\<close> (\<open>mx = None\<close> is no upper bound) on a
  one-character atom \<open>m\<close>, at index \<open>i\<close> with the rest of the input, and with the
  continuation \<open>k\<close>. With \<open>mn\<close> left the atom must match; otherwise another repetition
  is tried first and the continuation after it fails.
\<close>

fun RepeatMatcher ::
  "(code_unit \<Rightarrow> bool) \<Rightarrow> nat \<Rightarrow> nat option \<Rightarrow> (nat \<Rightarrow> jsstring \<Rightarrow> bool) \<Rightarrow> nat \<Rightarrow> jsstring \<Rightarrow> bool"
where
  "RepeatMatcher m mn mx k i [] = (if mx = Some 0 then k i [] else if mn \<noteq> 0 then False else k i [])"
| "RepeatMatcher m mn mx k i (x # xs) =
     (if mx = Some 0 then k i (x # xs)
      else if mn \<noteq> 0 then
        (if m x then RepeatMatcher m (mn - 1) (map_option (\<lambda>n. n - 1) mx) k (Suc i) xs else False)
      else if m x then
        (if RepeatMatcher m 0 (map_option (\<lambda>n. n - 1) mx) k (Suc i) xs then True
         else k i (x # xs))
      else k i (x # xs))"

text \<open>
  A sequence of terms, matched at index \<open>i\<close> against the rest of the input. \<open>^\<close> holds
  at index 0 only and \<open>$\<close> at the end of the input only (no \<open>m\<close> flag); after the last
  term the match has succeeded.
\<close>

primrec match_terms :: "bool \<Rightarrow> re_term list \<Rightarrow> nat \<Rightarrow> jsstring \<Rightarrow> bool" where
  "match_terms ic [] = (\<lambda>i s. True)"
| "match_terms ic (t # ts) =
     (\<lambda>i s. case t of
        AssertStart \<Rightarrow> (if i = 0 then match_terms ic ts i s else False)
      | AssertEnd \<Rightarrow> (if s = [] then match_terms ic ts i s else False)
      | Quantified a mn mx \<Rightarrow> RepeatMatcher (char_set_matcher ic a) mn mx (match_terms ic ts) i s)"

text \<open>
  \<open>RegExp.prototype.test\<close> on a pattern without the \<open>g\<close> and \<open>y\<close> flags: the match is
  tried at index 0, then at each later index up to the length of the input.
\<close>

fun exec_from :: "bool \<Rightarrow> re_term list \<Rightarrow> nat \<Rightarrow> jsstring \<Rightarrow> bool" where
  "exec_from ic ts i [] = match_terms ic ts i []"
| "exec_from ic ts i (x # xs) =
     (if match_terms ic ts i (x # xs) then True else exec_from ic ts (Suc i) xs)"

definition regexp_test :: "regexp \<Rightarrow> jsstring \<Rightarrow> bool" where
  "regexp_test re s = exec_from (ignoreCase re) (pattern re) 0 s"

section \<open>Contact validation\<close>

text \<open>\<^verbatim>\<open>/^[\w-.]+@[\w-]+\.[a-z]{2,}$/i\<close>\<close>

definition emailRegex :: regexp where
  "emailRegex =
     \<lparr>pattern =
        [AssertStart,
         Quantified (CharClass [ClassWord, ClassChar 0x2D, ClassChar 0x2E]) 1 None,
         Quantified (PatternChar 0x40) 1 (Some 1),
         Quantified (CharClass [ClassWord, ClassChar 0x2D]) 1 None,
         Quantified (PatternChar 0x2E) 1 (Some 1),
         Quantified (CharClass [ClassRange 0x61 0x7A]) 2 None,
         AssertEnd],
      ignoreCase = True\<rparr>"

text \<open>\<^verbatim>\<open>/^\+?[\d\s\-().]{7,20}$/\<close>\<close>

definition phoneRegex :: regexp where
  "phoneRegex =
     \<lparr>pattern =
        [AssertStart,
         Quantified (PatternChar 0x2B) 0 (Some 1),
         Quantified
           (CharClass [ClassDigit, ClassSpace, ClassChar 0x2D, ClassChar 0x28, ClassChar 0x29,
                       ClassChar 0x2E]) 7 (Some 20),
         AssertEnd],
      ignoreCase = False\<rparr>"

definition validateContactInfo :: "jsstring \<Rightarrow> bool" where
  "validateContactInfo info =
     (regexp_test emailRegex (trim info) \<or> regexp_test phoneRegex (trim info))"

section \<open>Arrays and timers\<close>

text \<open>
  React state holds arrays by reference. The store is the list of all arrays allocated so
  far and a reference is an index into it. \<open>filter\<close> and the spread literal
  \<^verbatim>\<open>[...a, v]\<close> allocate a new array and leave the store's other arrays as they
  are; \<open>includes\<close> only reads. The values held are strings, on which the
  comparison of \<open>includes\<close> and \<^verbatim>\<open>!==\<close> are equality and its negation.
\<close>

type_synonym ref = nat
type_synonym heap = "jsstring list list"

definition array_includes :: "heap \<Rightarrow> ref \<Rightarrow> jsstring \<Rightarrow> bool" where
  "array_includes h a v = (v \<in> set (h ! a))"

definition array_filter :: "heap \<Rightarrow> ref \<Rightarrow> (jsstring \<Rightarrow> bool) \<Rightarrow> ref \<times> heap" where
  "array_filter h a p = (length h, h @ [filter p (h ! a)])"

definition array_spread_with :: "heap \<Rightarrow> ref \<Rightarrow> jsstring \<Rightarrow> ref \<times> heap" where
  "array_spread_with h a v = (length h, h @ [h ! a @ [v]])"

text \<open>
  The host's timers: the pending ones, each with its handle and its delay in
  milliseconds, and the last handle given out (handles are positive). Every timer this
  component sets has the same callback, \<^verbatim>\<open>() => setIsOpen(false)\<close>.
\<close>

record timers =
  pending :: "(nat \<times> nat) list"
  last_handle :: nat

definition setTimeout :: "nat \<Rightarrow> timers \<Rightarrow> nat \<times> timers" where
  "setTimeout delay t =
     (Suc (last_handle t),
      t\<lparr>pending := pending t @ [(Suc (last_handle t), delay)],
        last_handle := Suc (last_handle t)\<rparr>)"

definition clearTimeout :: "nat \<Rightarrow> timers \<Rightarrow> timers" where
  "clearTimeout handle t = t\<lparr>pending := filter (\<lambda>(h, d). h \<noteq> handle) (pending t)\<rparr>"

section \<open>MultiSelectDropdown\<close>

text \<open>An option object \<^verbatim>\<open>{ text, value }\<close>.\<close>

record option_item =
  opt_text :: jsstring
  opt_value :: jsstring

text \<open>
  \<open>handleOptionClick\<close>, with the \<open>selectedOptions\<close> prop of the current render: the
  result is the argument of the one call of \<open>setSelectedOptions\<close> and the store after
  it.
\<close>

definition handleOptionClick :: "ref \<Rightarrow> jsstring \<Rightarrow> heap \<Rightarrow> ref \<times> heap" where
  "handleOptionClick selectedOptions value h =
     (if array_includes h selectedOptions value
      then array_filter h selectedOptions (\<lambda>v. v \<noteq> value)
      else array_spread_with h selectedOptions value)"

text \<open>
  One toggle of a dropdown as its parent sees it: the setter stores the new reference,
  which is the \<open>selectedOptions\<close> prop of the next render.
\<close>

definition toggleOption :: "jsstring \<Rightarrow> ref \<times> heap \<Rightarrow> ref \<times> heap" where
  "toggleOption value = (\<lambda>(selectedOptions, h). handleOptionClick selectedOptions value h)"

definition selection :: "ref \<times> heap \<Rightarrow> jsstring list" where
  "selection = (\<lambda>(selectedOptions, h). h ! selectedOptions)"

text \<open>
  The close delay. \<open>closeTimeoutRef\<close> holds \<open>null\<close> or a timer handle; a handle is
  truthy when it is not 0.
\<close>

record dropdown =
  isOpen :: bool
  closeTimeoutRef :: "nat option"

definition handleMouseLeave :: "dropdown \<times> timers \<Rightarrow> dropdown \<times> timers" where
  "handleMouseLeave = (\<lambda>(d, t).
     let (handle, t') = setTimeout 300 t
     in (d\<lparr>closeTimeoutRef := Some handle\<rparr>, t'))"

definition handleMouseEnter :: "dropdown \<times> timers \<Rightarrow> dropdown \<times> timers" where
  "handleMouseEnter = (\<lambda>(d, t).
     case closeTimeoutRef d of
       None \<Rightarrow> (d, t)
     | Some handle \<Rightarrow>
         if handle \<noteq> 0 then (d\<lparr>closeTimeoutRef := None\<rparr>, clearTimeout handle t)
         else (d, t))"

text \<open>A pending timer fires: it leaves the pending ones and its callback closes the list.\<close>

definition timer_fires :: "nat \<Rightarrow> dropdown \<times> timers \<Rightarrow> dropdown \<times> timers" where
  "timer_fires handle = (\<lambda>(d, t).
     if handle \<in> fst ` set (pending t)
     then (d\<lparr>isOpen := False\<rparr>, clearTimeout handle t)
     else (d, t))"

text \<open>
  The closed header: the placeholder, or one chip for each selected value. Reading
  \<^verbatim>\<open>options[0].text\<close> of an empty option list throws a TypeError.
\<close>

datatype js_error = TypeError

record chip =
  chip_key :: jsstring
  chip_label :: jsstring
  chip_aria_label :: jsstring
  chip_removes :: jsstring

datatype header = Placeholder jsstring | Chips "chip list"

definition render_chip :: "option_item list \<Rightarrow> jsstring \<Rightarrow> chip" where
  "render_chip options value =
     (let option = find (\<lambda>opt. opt_value opt = value) options;
          shown = (case option of Some opt \<Rightarrow> opt_text opt | None \<Rightarrow> value)
      in \<lparr>chip_key = value, chip_label = shown, chip_aria_label = js ''Remove '' @ shown,
          chip_removes = value\<rparr>)"

definition render_header :: "option_item list \<Rightarrow> ref \<Rightarrow> heap \<Rightarrow> js_error + header" where
  "render_header options selectedOptions h =
     (if length (h ! selectedOptions) = 0
      then (case options of [] \<Rightarrow> Inl TypeError | first # _ \<Rightarrow> Inr (Placeholder (opt_text first)))
      else Inr (Chips (map (render_chip options) (h ! selectedOptions))))"

section \<open>LearningMaterialPopup\<close>

record popup =
  selectedMaterials :: ref
  selectedPreferences :: ref
  contactInfo :: jsstring
  error :: jsstring

text \<open>The four \<open>useState\<close> calls of the first render; the two array literals are new arrays.\<close>

definition mount :: "heap \<Rightarrow> popup \<times> heap" where
  "mount h =
     (\<lparr>selectedMaterials = length h, selectedPreferences = Suc (length h),
       contactInfo = [], error = []\<rparr>,
      h @ [[], []])"

text \<open>The argument object of \<open>onNext\<close>.\<close>

record next_data =
  data_contactInfo :: jsstring
  data_selectedMaterials :: ref
  data_selectedPreferences :: ref

text \<open>
  \<open>handleNextClick\<close>. The parameter \<open>onNext\<close> says whether the prop is there (truthy);
  the result is the state after the click and the arguments of the calls of \<open>onNext\<close>
  made, in order.
\<close>

definition handleNextClick :: "bool \<Rightarrow> popup \<Rightarrow> popup \<times> next_data list" where
  "handleNextClick onNext st =
     (if trim (contactInfo st) = [] then
        (st\<lparr>error := js ''Contact info is required.''\<rparr>, [])
      else if \<not> validateContactInfo (trim (contactInfo st)) then
        (st\<lparr>error := js ''Please enter a valid phone number or email address.''\<rparr>, [])
      else
        (st\<lparr>error := []\<rparr>,
         if onNext
         then [\<lparr>data_contactInfo = trim (contactInfo st),
                data_selectedMaterials = selectedMaterials st,
                data_selectedPreferences = selectedPreferences st\<rparr>]
         else []))"

text \<open>
  The two dropdowns of the popup: each gets one of the selection states as its
  \<open>selectedOptions\<close> and the matching setter as its \<open>setSelectedOptions\<close>.
\<close>

datatype toggle = ToggleMaterial jsstring | TogglePreference jsstring

fun toggle_step :: "toggle \<Rightarrow> popup \<times> heap \<Rightarrow> popup \<times> heap" where
  "toggle_step (ToggleMaterial value) (st, h) =
     (let (a, h') = toggleOption value (selectedMaterials st, h)
      in (st\<lparr>selectedMaterials := a\<rparr>, h'))"
| "toggle_step (TogglePreference value) (st, h) =
     (let (a, h') = toggleOption value (selectedPreferences st, h)
      in (st\<lparr>selectedPreferences := a\<rparr>, h'))"

fun toggles :: "toggle list \<Rightarrow> popup \<times> heap \<Rightarrow> popup \<times> heap" where
  "toggles [] s = s"
| "toggles (e # es) s = toggles es (toggle_step e s)"

text \<open>The option lists the popup gives to its two dropdowns.\<close>

definition materialOptions :: "option_item list" where
  "materialOptions =
     [\<lparr>opt_text = js ''JavaScript'', opt_value = js ''javascript''\<rparr>,
      \<lparr>opt_text = js ''React'', opt_value = js ''react''\<rparr>]"

definition preferenceOptions :: "option_item list" where
  "preferenceOptions =
     [\<lparr>opt_text = js ''Online'', opt_value = js ''online''\<rparr>,
      \<lparr>opt_text = js ''In-person'', opt_value = js ''inperson''\<rparr>,
      \<lparr>opt_text = js ''Self-paced'', opt_value = js ''selfpaced''\<rparr>]"

text \<open>
  The invariant of the popup's selections: both references are allocated and neither
  array holds a value twice.
\<close>

definition selections_ok :: "popup \<times> heap \<Rightarrow> bool" where
  "selections_ok = (\<lambda>(st, h).
     selectedMaterials st < length h \<and> selectedPreferences st < length h
     \<and> distinct (h ! selectedMaterials st) \<and> distinct (h ! selectedPreferences st))"

section \<open>The specification's wording\<close>

subsection \<open>The validation patterns as the specification words them\<close>

text \<open>
  Email: one or more word characters, hyphens or dots, then \<open>@\<close>, then one or more word
  characters or hyphens, then a dot, then two or more lower-case letters; the whole
  pattern is case-insensitive, so the input is read with its upper-case letters lowered.
\<close>

definition to_lower :: "code_unit \<Rightarrow> code_unit" where
  "to_lower c = (if is_upper c then c + 0x20 else c)"

definition email_shape :: "jsstring \<Rightarrow> bool" where
  "email_shape s =
     (\<exists>local domain tld.
        s = local @ [0x40] @ domain @ [0x2E] @ tld
        \<and> local \<noteq> [] \<and> list_all (\<lambda>c. is_word_char c \<or> c = 0x2D \<or> c = 0x2E) local
        \<and> domain \<noteq> [] \<and> list_all (\<lambda>c. is_word_char c \<or> c = 0x2D) domain
        \<and> 2 \<le> length tld \<and> list_all is_lower tld)"

definition email_pattern :: "jsstring \<Rightarrow> bool" where
  "email_pattern s = email_shape (map to_lower s)"

text \<open>
  Phone: an optional leading \<open>+\<close>, then 7 to 20 characters drawn from digits, space,
  hyphen, parentheses and dot. The characters that count as "space" are the parameter
  \<open>sp\<close>: the specification's wording is the single character U+0020, the class escape
  of the source is \<open>is_whitespace\<close>.
\<close>

definition is_space :: "code_unit \<Rightarrow> bool" where
  "is_space c = (c = 0x20)"

definition phone_char :: "(code_unit \<Rightarrow> bool) \<Rightarrow> code_unit \<Rightarrow> bool" where
  "phone_char sp c = (is_digit c \<or> sp c \<or> c = 0x2D \<or> c = 0x28 \<or> c = 0x29 \<or> c = 0x2E)"

definition phone_pattern :: "(code_unit \<Rightarrow> bool) \<Rightarrow> jsstring \<Rightarrow> bool" where
  "phone_pattern sp s =
     (\<exists>body. (s = body \<or> s = 0x2B # body)
        \<and> 7 \<le> length body \<and> length body \<le> 20 \<and> list_all (phone_char sp) body)"

text \<open>A repetition count \<open>n\<close> within the upper bound of a quantifier.\<close>

abbreviation within :: "nat option \<Rightarrow> nat \<Rightarrow> bool" where
  "within mx n \<equiv> (case mx of None \<Rightarrow> True | Some b \<Rightarrow> n \<le> b)"

section \<open>The matcher and the two patterns\<close>

lemma unat_add32: "c \<le> (0x5A::code_unit) \<Longrightarrow> unat (c + 0x20) = unat c + 32"
  by (simp add: word_le_nat_alt unat_add_lem [THEN iffD1])

lemma unat_sub32: "(0x61::code_unit) \<le> c \<Longrightarrow> unat (c - 0x20) = unat c - 32"
  by (simp add: word_le_nat_alt unat_sub)

lemma upper_to_lower: "is_upper c \<Longrightarrow> is_lower (c + 0x20)"
  unfolding is_upper_def is_lower_def by (simp add: word_le_nat_alt unat_add32)

lemma lower_to_upper: "is_lower c \<Longrightarrow> is_upper (c - 0x20)"
  unfolding is_upper_def is_lower_def by (simp add: word_le_nat_alt unat_sub32) arith

lemma lower_not_upper: "is_lower c \<Longrightarrow> \<not> is_upper c"
  unfolding is_upper_def is_lower_def by (simp add: word_le_nat_alt)

lemma canonical_form_iff:
  "canonicalize ic a = canonicalize ic c \<longleftrightarrow> a \<in> set (case_variants ic c)"
proof (cases ic)
  case False
  then show ?thesis by (simp add: canonicalize_def case_variants_def)
next
  case True
  have up: "is_lower d \<Longrightarrow> \<not> is_lower (d - 0x20)" for d
    using lower_to_upper lower_not_upper by blast
  have eq1: "a - 0x20 = c \<longleftrightarrow> a = c + 0x20" by auto
  show ?thesis
    using True up [of a] up [of c] upper_to_lower [of a] upper_to_lower [of c]
      lower_to_upper [of a] lower_to_upper [of c] lower_not_upper [of a] lower_not_upper [of c]
    by (auto simp: canonicalize_def case_variants_def eq1)
qed

lemma char_set_matcher_canonical:
  "char_set_matcher ic a c \<longleftrightarrow> (\<exists>a'. atom_set a a' \<and> canonicalize ic a' = canonicalize ic c)"
  by (auto simp: char_set_matcher_def canonical_form_iff list_ex_iff)

lemma RepeatMatcher_iff:
  "within mx mn \<Longrightarrow>
   RepeatMatcher m mn mx k i s \<longleftrightarrow>
     (\<exists>u v. s = u @ v \<and> list_all m u \<and> mn \<le> length u \<and> within mx (length u) \<and> k (i + length u) v)"
proof (induction s arbitrary: mn mx i)
  case Nil
  then show ?case by (auto split: option.splits)
next
  case (Cons x xs)
  show ?case
  proof (cases "mx = Some 0")
    case True
    with Cons.prems show ?thesis by auto
  next
    case False
    have w: "within (map_option (\<lambda>n. n - 1) mx) (mn - 1)"
      using Cons.prems False by (auto split: option.splits)
    note IH = Cons.IH [OF w, of "Suc i"]
    have split: "(\<exists>u v. x # xs = u @ v \<and> list_all m u \<and> mn \<le> length u \<and> within mx (length u) \<and> k (i + length u) v)
      \<longleftrightarrow> (mn = 0 \<and> k i (x # xs)) \<or>
          (m x \<and> (\<exists>u v. xs = u @ v \<and> list_all m u \<and> mn - 1 \<le> length u
                 \<and> within (map_option (\<lambda>n. n - 1) mx) (length u) \<and> k (Suc i + length u) v))"
      (is "?L \<longleftrightarrow> ?A \<or> ?B")
    proof
      assume ?L
      then obtain u v where uv: "x # xs = u @ v" "list_all m u" "mn \<le> length u"
        "within mx (length u)" "k (i + length u) v" by blast
      show "?A \<or> ?B"
      proof (cases u)
        case Nil
        with uv show ?thesis by simp
      next
        case (Cons y u')
        with uv False have "m x \<and> xs = u' @ v \<and> list_all m u' \<and> mn - 1 \<le> length u'
          \<and> within (map_option (\<lambda>n. n - 1) mx) (length u') \<and> k (Suc i + length u') v"
          by (auto split: option.splits)
        then have ?B by blast
        then show ?thesis ..
      qed
    next
      assume "?A \<or> ?B"
      then show ?L
      proof
        assume ?A
        then have "x # xs = [] @ (x # xs) \<and> list_all m [] \<and> mn \<le> length ([]::jsstring)
          \<and> within mx (length ([]::jsstring)) \<and> k (i + length ([]::jsstring)) (x # xs)"
          by (simp split: option.splits)
        then show ?L by blast
      next
        assume ?B
        then obtain u v where uv: "m x" "xs = u @ v" "list_all m u" "mn - 1 \<le> length u"
          "within (map_option (\<lambda>n. n - 1) mx) (length u)" "k (Suc i + length u) v" by blast
        with False have "x # xs = (x # u) @ v \<and> list_all m (x # u) \<and> mn \<le> length (x # u)
          \<and> within mx (length (x # u)) \<and> k (i + length (x # u)) v"
          by (auto split: option.splits)
        then show ?L by blast
      qed
    qed
    show ?thesis
      unfolding split using False IH by (cases "mn = 0") auto
  qed
qed

lemma exec_from_AssertStart_later: "i \<noteq> 0 \<Longrightarrow> \<not> exec_from ic (AssertStart # ts) i s"
  by (induction s arbitrary: i) auto

lemma exec_from_AssertStart: "exec_from ic (AssertStart # ts) 0 s = match_terms ic ts 0 s"
  by (cases s) (auto simp: exec_from_AssertStart_later)

lemma email_local_matcher:
  "char_set_matcher True (CharClass [ClassWord, ClassChar 0x2D, ClassChar 0x2E]) c
     \<longleftrightarrow> is_word_char c \<or> c = 0x2D \<or> c = 0x2E"
  using lower_to_upper [of c] upper_to_lower [of c]
  by (auto simp: char_set_matcher_def case_variants_def is_word_char_def)

lemma email_domain_matcher:
  "char_set_matcher True (CharClass [ClassWord, ClassChar 0x2D]) c \<longleftrightarrow> is_word_char c \<or> c = 0x2D"
  using lower_to_upper [of c] upper_to_lower [of c]
  by (auto simp: char_set_matcher_def case_variants_def is_word_char_def)

lemma email_tld_matcher:
  "char_set_matcher True (CharClass [ClassRange 0x61 0x7A]) c \<longleftrightarrow> is_lower c \<or> is_upper c"
  using lower_to_upper [of c] upper_to_lower [of c] lower_not_upper [of c]
  by (auto simp: char_set_matcher_def case_variants_def is_lower_def)

lemma pattern_char_matcher_ci:
  "\<not> is_lower a \<Longrightarrow> \<not> is_upper a \<Longrightarrow> char_set_matcher True (PatternChar a) c \<longleftrightarrow> c = a"
  using lower_to_upper [of c] upper_to_lower [of c]
  by (auto simp: char_set_matcher_def case_variants_def)

lemma char_set_matcher_cs: "char_set_matcher False a c = atom_set a c"
  by (simp add: char_set_matcher_def case_variants_def)

lemma to_lower_word: "is_word_char (to_lower c) \<longleftrightarrow> is_word_char c"
  using upper_to_lower [of c] by (auto simp: to_lower_def is_word_char_def)

lemma to_lower_letter: "is_lower (to_lower c) \<longleftrightarrow> is_lower c \<or> is_upper c"
  using upper_to_lower [of c] lower_not_upper [of c] by (auto simp: to_lower_def)

lemma to_lower_other: "\<not> is_lower a \<Longrightarrow> to_lower c = a \<longleftrightarrow> c = a \<and> \<not> is_upper a"
  using upper_to_lower [of c] by (auto simp: to_lower_def)

lemma not_letter [simp]:
  "\<not> is_lower 0x40" "\<not> is_upper 0x40" "\<not> is_lower 0x2E" "\<not> is_upper 0x2E"
  "\<not> is_lower 0x2D" "\<not> is_upper 0x2D"
  by (simp_all add: is_lower_def is_upper_def)

lemma map_eq_snoc_split:
  "map f s = l' @ a' # r' \<Longrightarrow> \<exists>l a r. s = l @ a # r \<and> map f l = l' \<and> f a = a' \<and> map f r = r'"
  by (auto simp: map_eq_append_conv map_eq_Cons_conv)

text \<open>The email pattern written on the input itself: the letters of the last part may
  be of either case.\<close>

lemma email_pattern_iff:
  "email_pattern s \<longleftrightarrow>
     (\<exists>l d t. s = l @ [0x40] @ d @ [0x2E] @ t
        \<and> l \<noteq> [] \<and> list_all (\<lambda>c. is_word_char c \<or> c = 0x2D \<or> c = 0x2E) l
        \<and> d \<noteq> [] \<and> list_all (\<lambda>c. is_word_char c \<or> c = 0x2D) d
        \<and> 2 \<le> length t \<and> list_all (\<lambda>c. is_lower c \<or> is_upper c) t)"
  (is "_ \<longleftrightarrow> ?R")
proof
  assume "email_pattern s"
  then obtain l' d' t' where m: "map to_lower s = l' @ [0x40] @ d' @ [0x2E] @ t'"
    and p: "l' \<noteq> []" "list_all (\<lambda>c. is_word_char c \<or> c = 0x2D \<or> c = 0x2E) l'"
      "d' \<noteq> []" "list_all (\<lambda>c. is_word_char c \<or> c = 0x2D) d'"
      "2 \<le> length t'" "list_all is_lower t'"
    unfolding email_pattern_def email_shape_def by blast
  from m obtain l a r where s1: "s = l @ a # r"
    and e1: "map to_lower l = l'" "to_lower a = 0x40" "map to_lower r = d' @ 0x2E # t'"
    using map_eq_snoc_split [of to_lower s l' "0x40" "d' @ 0x2E # t'"] by auto
  from e1(3) obtain d b t where s2: "r = d @ b # t"
    and e2: "map to_lower d = d'" "to_lower b = 0x2E" "map to_lower t = t'"
    using map_eq_snoc_split [of to_lower r d' "0x2E" t'] by auto
  from s1 s2 have s: "s = l @ [a] @ d @ [b] @ t" by simp
  note e = e1(1) e1(2) e2
  from e have ab: "a = 0x40" "b = 0x2E" by (simp_all add: to_lower_other)
  have "list_all (\<lambda>c. is_word_char c \<or> c = 0x2D \<or> c = 0x2E) l"
    using p(2) e(1) by (auto simp: list_all_iff to_lower_word to_lower_other)
  moreover have "list_all (\<lambda>c. is_word_char c \<or> c = 0x2D) d"
    using p(4) e(3) by (auto simp: list_all_iff to_lower_word to_lower_other)
  moreover have "list_all (\<lambda>c. is_lower c \<or> is_upper c) t"
    using p(6) e(5) by (auto simp: list_all_iff to_lower_letter)
  moreover have "l \<noteq> []" "d \<noteq> []" "2 \<le> length t" using p e by auto
  ultimately show ?R using s ab by blast
next
  assume ?R
  then obtain l d t where s: "s = l @ [0x40] @ d @ [0x2E] @ t"
    and p: "l \<noteq> []" "list_all (\<lambda>c. is_word_char c \<or> c = 0x2D \<or> c = 0x2E) l"
      "d \<noteq> []" "list_all (\<lambda>c. is_word_char c \<or> c = 0x2D) d"
      "2 \<le> length t" "list_all (\<lambda>c. is_lower c \<or> is_upper c) t"
    by blast
  have fx: "to_lower 0x40 = 0x40" "to_lower 0x2E = 0x2E" by (simp_all add: to_lower_def)
  have m: "map to_lower s = map to_lower l @ [0x40] @ map to_lower d @ [0x2E] @ map to_lower t"
    using s fx by simp
  have "list_all (\<lambda>c. is_word_char c \<or> c = 0x2D \<or> c = 0x2E) (map to_lower l)"
    using p(2) by (auto simp: list_all_iff to_lower_word to_lower_other)
  moreover have "list_all (\<lambda>c. is_word_char c \<or> c = 0x2D) (map to_lower d)"
    using p(4) by (auto simp: list_all_iff to_lower_word to_lower_other)
  moreover have "list_all is_lower (map to_lower t)"
    using p(6) by (auto simp: list_all_iff to_lower_letter)
  moreover have "map to_lower l \<noteq> []" "map to_lower d \<noteq> []" "2 \<le> length (map to_lower t)"
    using p by auto
  ultimately show "email_pattern s"
    unfolding email_pattern_def email_shape_def using m by blast
qed

lemma list_all_one: "list_all P u \<and> Suc 0 \<le> length u \<and> length u \<le> Suc 0 \<longleftrightarrow> (\<exists>a. u = [a] \<and> P a)"
  by (cases u) auto

lemma emailRegex_test: "regexp_test emailRegex s \<longleftrightarrow> email_pattern s"
proof -
  have "regexp_test emailRegex s \<longleftrightarrow>
    (\<exists>u1 v1. s = u1 @ v1 \<and> list_all (\<lambda>c. is_word_char c \<or> c = 0x2D \<or> c = 0x2E) u1 \<and> 1 \<le> length u1 \<and>
      (\<exists>u2 v2. v1 = u2 @ v2 \<and> list_all (\<lambda>c. c = 0x40) u2 \<and> 1 \<le> length u2 \<and> length u2 \<le> 1 \<and>
        (\<exists>u3 v3. v2 = u3 @ v3 \<and> list_all (\<lambda>c. is_word_char c \<or> c = 0x2D) u3 \<and> 1 \<le> length u3 \<and>
          (\<exists>u4 v4. v3 = u4 @ v4 \<and> list_all (\<lambda>c. c = 0x2E) u4 \<and> 1 \<le> length u4 \<and> length u4 \<le> 1 \<and>
            (\<exists>u5 v5. v4 = u5 @ v5 \<and> list_all (\<lambda>c. is_lower c \<or> is_upper c) u5 \<and> 2 \<le> length u5 \<and> v5 = [])))))"
    by (simp add: regexp_test_def emailRegex_def exec_from_AssertStart RepeatMatcher_iff
        email_local_matcher email_domain_matcher email_tld_matcher pattern_char_matcher_ci
        cong: list.pred_cong)
  also have "\<dots> \<longleftrightarrow>
    (\<exists>l d t. s = l @ [0x40] @ d @ [0x2E] @ t
        \<and> l \<noteq> [] \<and> list_all (\<lambda>c. is_word_char c \<or> c = 0x2D \<or> c = 0x2E) l
        \<and> d \<noteq> [] \<and> list_all (\<lambda>c. is_word_char c \<or> c = 0x2D) d
        \<and> 2 \<le> length t \<and> list_all (\<lambda>c. is_lower c \<or> is_upper c) t)"
    (is "?A \<longleftrightarrow> ?B")
  proof
    assume ?A
    then obtain u1 u2 u3 u4 u5 where
      s: "s = u1 @ u2 @ u3 @ u4 @ u5"
      and p: "list_all (\<lambda>c. is_word_char c \<or> c = 0x2D \<or> c = 0x2E) u1" "1 \<le> length u1"
        "list_all (\<lambda>c. c = 0x40) u2 \<and> Suc 0 \<le> length u2 \<and> length u2 \<le> Suc 0"
        "list_all (\<lambda>c. is_word_char c \<or> c = 0x2D) u3" "1 \<le> length u3"
        "list_all (\<lambda>c. c = 0x2E) u4 \<and> Suc 0 \<le> length u4 \<and> length u4 \<le> Suc 0"
        "list_all (\<lambda>c. is_lower c \<or> is_upper c) u5" "2 \<le> length u5"
      by auto
    from p(3) p(6) have "u2 = [0x40]" "u4 = [0x2E]" by (auto simp: list_all_one)
    moreover from p(2) p(5) have "u1 \<noteq> []" "u3 \<noteq> []" by auto
    ultimately show ?B using s p by blast
  next
    assume ?B
    then obtain l d t where s: "s = l @ [0x40] @ d @ [0x2E] @ t"
      and p: "l \<noteq> []" "list_all (\<lambda>c. is_word_char c \<or> c = 0x2D \<or> c = 0x2E) l"
        "d \<noteq> []" "list_all (\<lambda>c. is_word_char c \<or> c = 0x2D) d"
        "2 \<le> length t" "list_all (\<lambda>c. is_lower c \<or> is_upper c) t"
      by blast
    have l1: "1 \<le> length l" "1 \<le> length d" using p by (simp_all add: Suc_le_eq)
    have 5: "\<exists>u5 v5. t = u5 @ v5 \<and> list_all (\<lambda>c. is_lower c \<or> is_upper c) u5 \<and> 2 \<le> length u5 \<and> v5 = []"
      using p by simp
    have 4: "\<exists>u4 v4. [0x2E] @ t = u4 @ v4 \<and> list_all (\<lambda>c. c = 0x2E) u4 \<and> 1 \<le> length u4 \<and> length u4 \<le> 1 \<and>
            (\<exists>u5 v5. v4 = u5 @ v5 \<and> list_all (\<lambda>c. is_lower c \<or> is_upper c) u5 \<and> 2 \<le> length u5 \<and> v5 = [])"
      using 5 by (intro exI [of _ "[0x2E]"] exI [of _ t]) simp
    have 3: "\<exists>u3 v3. d @ [0x2E] @ t = u3 @ v3 \<and> list_all (\<lambda>c. is_word_char c \<or> c = 0x2D) u3 \<and> 1 \<le> length u3 \<and>
          (\<exists>u4 v4. v3 = u4 @ v4 \<and> list_all (\<lambda>c. c = 0x2E) u4 \<and> 1 \<le> length u4 \<and> length u4 \<le> 1 \<and>
            (\<exists>u5 v5. v4 = u5 @ v5 \<and> list_all (\<lambda>c. is_lower c \<or> is_upper c) u5 \<and> 2 \<le> length u5 \<and> v5 = []))"
      using 4 p l1 by (intro exI [of _ d] exI [of _ "[0x2E] @ t"]) simp
    have 2: "\<exists>u2 v2. [0x40] @ d @ [0x2E] @ t = u2 @ v2 \<and> list_all (\<lambda>c. c = 0x40) u2 \<and> 1 \<le> length u2 \<and> length u2 \<le> 1 \<and>
        (\<exists>u3 v3. v2 = u3 @ v3 \<and> list_all (\<lambda>c. is_word_char c \<or> c = 0x2D) u3 \<and> 1 \<le> length u3 \<and>
          (\<exists>u4 v4. v3 = u4 @ v4 \<and> list_all (\<lambda>c. c = 0x2E) u4 \<and> 1 \<le> length u4 \<and> length u4 \<le> 1 \<and>
            (\<exists>u5 v5. v4 = u5 @ v5 \<and> list_all (\<lambda>c. is_lower c \<or> is_upper c) u5 \<and> 2 \<le> length u5 \<and> v5 = [])))"
      using 3 by (intro exI [of _ "[0x40]"] exI [of _ "d @ [0x2E] @ t"]) simp
    show ?A
      using 2 p l1 s by (intro exI [of _ l] exI [of _ "[0x40] @ d @ [0x2E] @ t"]) simp
  qed
  finally show ?thesis by (simp add: email_pattern_iff)
qed

lemma list_all_plus: "list_all (\<lambda>c. c = a) u \<and> length u \<le> Suc 0 \<longleftrightarrow> u = [] \<or> u = [a]"
  by (cases u) auto

lemma phoneRegex_test: "regexp_test phoneRegex s \<longleftrightarrow> phone_pattern is_whitespace s"
proof -
  have "regexp_test phoneRegex s \<longleftrightarrow>
    (\<exists>u1 v1. s = u1 @ v1 \<and> (list_all (\<lambda>c. c = 0x2B) u1 \<and> length u1 \<le> Suc 0) \<and>
      (\<exists>u2 v2. v1 = u2 @ v2 \<and> list_all (phone_char is_whitespace) u2 \<and> 7 \<le> length u2 \<and> length u2 \<le> 20 \<and> v2 = []))"
    by (simp add: regexp_test_def phoneRegex_def exec_from_AssertStart RepeatMatcher_iff
        char_set_matcher_cs phone_char_def cong: list.pred_cong)
  also have "\<dots> \<longleftrightarrow> phone_pattern is_whitespace s"
    (is "?A \<longleftrightarrow> _")
  proof
    assume ?A
    then show "phone_pattern is_whitespace s"
      unfolding list_all_plus phone_pattern_def by auto
  next
    assume "phone_pattern is_whitespace s"
    then obtain body where b: "s = body \<or> s = 0x2B # body" "7 \<le> length body"
      "length body \<le> 20" "list_all (phone_char is_whitespace) body"
      unfolding phone_pattern_def by blast
    from b(1) show ?A
    proof
      assume "s = body"
      with b show ?A by (intro exI [of _ "[]"] exI [of _ body]) simp
    next
      assume "s = 0x2B # body"
      with b show ?A by (intro exI [of _ "[0x2B]"] exI [of _ body]) simp
    qed
  qed
  finally show ?thesis .
qed

lemma dropWhile_fix: "xs = [] \<or> \<not> P (hd xs) \<Longrightarrow> dropWhile P xs = xs"
  by (cases xs) auto

lemma dropWhile_rev_hd:
  assumes "xs \<noteq> []" "\<not> P (hd xs)"
  shows "rev (dropWhile P (rev xs)) \<noteq> [] \<and> hd (rev (dropWhile P (rev xs))) = hd xs"
proof -
  from assms obtain a ys where xs: "xs = a # ys" and a: "\<not> P a" by (cases xs) auto
  have "dropWhile P (rev xs) = (if \<forall>x\<in>set (rev ys). P x then [a] else dropWhile P (rev ys) @ [a])"
    using a by (simp add: xs dropWhile_append)
  then show ?thesis by (simp add: xs)
qed

lemma trim_hd: "trim s = [] \<or> \<not> is_whitespace (hd (trim s))"
proof -
  let ?u = "dropWhile is_whitespace s"
  have u: "?u = [] \<or> \<not> is_whitespace (hd ?u)" using hd_dropWhile [of is_whitespace s] by blast
  show ?thesis
  proof (cases "?u = []")
    case True
    have "trim s = []" unfolding trim_def True by simp
    then show ?thesis ..
  next
    case False
    with u have nw: "\<not> is_whitespace (hd ?u)" by blast
    from dropWhile_rev_hd [of ?u is_whitespace, OF False nw] have "hd (trim s) = hd ?u"
      unfolding trim_def by blast
    with nw have "\<not> is_whitespace (hd (trim s))" by (rule_tac ssubst)
    then show ?thesis ..
  qed
qed

lemma trim_idem: "trim (trim s) = trim s"
proof -
  let ?w = "dropWhile is_whitespace (rev (dropWhile is_whitespace s))"
  have 1: "dropWhile is_whitespace (trim s) = trim s"
    using trim_hd [of s] by (rule dropWhile_fix)
  have 2: "dropWhile is_whitespace ?w = ?w" by (rule dropWhile_idem)
  have "trim (trim s) = rev (dropWhile is_whitespace (rev (trim s)))"
    unfolding trim_def [of "trim s"] 1 ..
  also have "\<dots> = rev (dropWhile is_whitespace ?w)" by (simp add: trim_def)
  also have "\<dots> = trim s" unfolding 2 by (simp add: trim_def)
  finally show ?thesis .
qed

lemma validateContactInfo_trim: "validateContactInfo (trim s) = validateContactInfo s"
  by (simp add: validateContactInfo_def trim_idem)

lemma regexp_test_empty: "\<not> regexp_test emailRegex []" "\<not> regexp_test phoneRegex []"
  by (simp_all add: regexp_test_def emailRegex_def phoneRegex_def)

lemma validateContactInfo_nonempty: "validateContactInfo s \<Longrightarrow> trim s \<noteq> []"
  using regexp_test_empty by (auto simp: validateContactInfo_def)

lemma email_pattern_at: "email_pattern s \<Longrightarrow> 0x40 \<in> set s"
  by (auto simp: email_pattern_iff)

lemma phone_pattern_chars: "phone_pattern sp s \<Longrightarrow> list_all (\<lambda>c. phone_char sp c \<or> c = 0x2B) s"
  by (auto simp: phone_pattern_def list_all_iff)

lemmas char_defs = is_whitespace_def is_digit_def is_lower_def is_upper_def is_word_char_def

lemmas regexp_defs = canonicalize_def case_variants_def char_set_matcher_def regexp_test_def
  emailRegex_def phoneRegex_def

section \<open>Claims about contact validation\<close>

text \<open>
  C1, as stated, fails: the phone pattern of the source uses the class escape \<open>\s\<close>, so
  a tab between the digits is accepted, while the claim's phone pattern allows the space
  character only. The input is \<^verbatim>\<open>"123\t4567"\<close>.
\<close>

theorem validateContactInfo_space_counterexample:
  "\<not> (validateContactInfo [0x31, 0x32, 0x33, 0x09, 0x34, 0x35, 0x36, 0x37]
       \<longleftrightarrow> email_pattern (trim [0x31, 0x32, 0x33, 0x09, 0x34, 0x35, 0x36, 0x37])
          \<or> phone_pattern is_space (trim [0x31, 0x32, 0x33, 0x09, 0x34, 0x35, 0x36, 0x37]))"
proof -
  let ?s = "[0x31, 0x32, 0x33, 0x09, 0x34, 0x35, 0x36, 0x37] :: jsstring"
  have t: "trim ?s = ?s" by (simp add: trim_def char_defs)
  have v: "validateContactInfo ?s"
    by (simp add: validateContactInfo_def t) (simp add: char_defs regexp_defs)
  have "\<not> email_pattern ?s" using email_pattern_at [of ?s] by auto
  moreover have "\<not> phone_pattern is_space ?s"
    using phone_pattern_chars [of is_space ?s] by (auto simp: phone_char_def is_space_def char_defs)
  ultimately show ?thesis using v t by simp
qed

text \<open>
  C1, amended: for every string, \<open>validateContactInfo\<close> returns true if and only if the
  trimmed string matches the email pattern or the phone pattern, where the characters
  of the phone pattern are digits, white space (every character \<open>\s\<close> matches),
  hyphen, parentheses and dot.
\<close>

theorem validateContactInfo_iff:
  "validateContactInfo s \<longleftrightarrow> email_pattern (trim s) \<or> phone_pattern is_whitespace (trim s)"
  by (simp add: validateContactInfo_def emailRegex_test phoneRegex_test)

theorem validateContactInfo_iff_witness:
  "email_pattern (trim (js '' user@example.com ''))
   \<or> phone_pattern is_whitespace (trim (js '' user@example.com ''))"
proof -
  have "validateContactInfo (js '' user@example.com '')"
    by (simp add: validateContactInfo_def js_def trim_def char_defs regexp_defs)
  then show ?thesis using validateContactInfo_iff [of "js '' user@example.com ''"] by blast
qed

text \<open>
  C10: there are inputs with no digit at all that pass validation, seven hyphens and
  seven dots among them, through the phone pattern.
\<close>

theorem validateContactInfo_no_digit:
  "\<not> list_ex is_digit (js ''-------'') \<and> regexp_test phoneRegex (trim (js ''-------''))
   \<and> validateContactInfo (js ''-------'')
   \<and> \<not> list_ex is_digit (js ''.......'') \<and> validateContactInfo (js ''.......'')"
  by (simp add: validateContactInfo_def js_def trim_def char_defs regexp_defs)

lemmas eval_defs = validateContactInfo_def js_def trim_def char_defs regexp_defs

section \<open>Claims about the submit action\<close>

text \<open>
  C2: when the contact info passes validation, the click clears the error and calls the
  supplied \<open>onNext\<close> exactly once, with the trimmed contact info and the two selections
  of the state. In particular, with the contact info \<^verbatim>\<open>"user@example.com"\<close> and both
  selections empty, the one call gets that string and two empty arrays.
\<close>

theorem handleNextClick_valid:
  "(validateContactInfo (contactInfo st) \<longrightarrow>
      handleNextClick True st =
        (st\<lparr>error := []\<rparr>,
         [\<lparr>data_contactInfo = trim (contactInfo st),
           data_selectedMaterials = selectedMaterials st,
           data_selectedPreferences = selectedPreferences st\<rparr>]))
   \<and> (contactInfo st = js ''user@example.com'' \<and> h ! selectedMaterials st = []
        \<and> h ! selectedPreferences st = [] \<longrightarrow>
      (\<exists>d. snd (handleNextClick True st) = [d]
         \<and> data_contactInfo d = js ''user@example.com''
         \<and> h ! data_selectedMaterials d = [] \<and> h ! data_selectedPreferences d = [])
      \<and> error (fst (handleNextClick True st)) = [])"
proof (intro conjI impI)
  assume v: "validateContactInfo (contactInfo st)"
  then have "trim (contactInfo st) \<noteq> []" by (rule validateContactInfo_nonempty)
  with v show "handleNextClick True st =
        (st\<lparr>error := []\<rparr>,
         [\<lparr>data_contactInfo = trim (contactInfo st),
           data_selectedMaterials = selectedMaterials st,
           data_selectedPreferences = selectedPreferences st\<rparr>])"
    by (simp add: handleNextClick_def validateContactInfo_trim)
next
  assume a: "contactInfo st = js ''user@example.com'' \<and> h ! selectedMaterials st = []
        \<and> h ! selectedPreferences st = []"
  have t: "trim (js ''user@example.com'') = js ''user@example.com''"
    by (simp add: js_def trim_def char_defs)
  have v: "validateContactInfo (js ''user@example.com'')"
    by (simp add: eval_defs)
  have ne: "js ''user@example.com'' \<noteq> []" by (simp add: js_def)
  have r: "handleNextClick True st =
        (st\<lparr>error := []\<rparr>,
         [\<lparr>data_contactInfo = js ''user@example.com'',
           data_selectedMaterials = selectedMaterials st,
           data_selectedPreferences = selectedPreferences st\<rparr>])"
    using a v ne by (simp add: handleNextClick_def t)
  show "\<exists>d. snd (handleNextClick True st) = [d]
         \<and> data_contactInfo d = js ''user@example.com''
         \<and> h ! data_selectedMaterials d = [] \<and> h ! data_selectedPreferences d = []"
    using a by (simp add: r)
  show "error (fst (handleNextClick True st)) = []" by (simp add: r)
qed

theorem handleNextClick_valid_witness:
  "validateContactInfo (js ''user@example.com'')
   \<and> [[], []] ! 0 = ([] :: jsstring list) \<and> [[], []] ! Suc 0 = ([] :: jsstring list)
   \<and> handleNextClick True
        \<lparr>selectedMaterials = 0, selectedPreferences = Suc 0,
         contactInfo = js ''user@example.com'', error = js ''Contact info is required.''\<rparr>
     = (\<lparr>selectedMaterials = 0, selectedPreferences = Suc 0,
         contactInfo = js ''user@example.com'', error = []\<rparr>,
        [\<lparr>data_contactInfo = js ''user@example.com'', data_selectedMaterials = 0,
          data_selectedPreferences = Suc 0\<rparr>])"
proof -
  let ?st = "\<lparr>selectedMaterials = 0, selectedPreferences = Suc 0,
         contactInfo = js ''user@example.com'', error = js ''Contact info is required.''\<rparr>"
  have v: "validateContactInfo (js ''user@example.com'')" by (simp add: eval_defs)
  have t: "trim (js ''user@example.com'') = js ''user@example.com''"
    by (simp add: js_def trim_def char_defs)
  from handleNextClick_valid [of ?st "[[], []]"]
  have "validateContactInfo (contactInfo ?st) \<longrightarrow>
      handleNextClick True ?st =
        (?st\<lparr>error := []\<rparr>,
         [\<lparr>data_contactInfo = trim (contactInfo ?st),
           data_selectedMaterials = selectedMaterials ?st,
           data_selectedPreferences = selectedPreferences ?st\<rparr>])"
    by (rule conjunct1)
  with v have "handleNextClick True ?st =
        (?st\<lparr>error := []\<rparr>,
         [\<lparr>data_contactInfo = trim (contactInfo ?st),
           data_selectedMaterials = selectedMaterials ?st,
           data_selectedPreferences = selectedPreferences ?st\<rparr>])"
    by simp
  with v show ?thesis by (simp add: t)
qed

text \<open>Without an \<open>onNext\<close> prop the same click clears the error and calls nothing.\<close>

lemma handleNextClick_valid_no_callback:
  "validateContactInfo (contactInfo st) \<Longrightarrow> handleNextClick False st = (st\<lparr>error := []\<rparr>, [])"
  using validateContactInfo_nonempty [of "contactInfo st"]
  by (simp add: handleNextClick_def validateContactInfo_trim)

text \<open>
  C3: when the contact info is empty after trimming, the click sets the error to
  "Contact info is required.", calls \<open>onNext\<close> not at all, whether it was supplied or
  not, and leaves the contact info and both selections as they were.
\<close>

theorem handleNextClick_empty:
  "trim (contactInfo st) = [] \<Longrightarrow>
     handleNextClick onNext st = (st\<lparr>error := js ''Contact info is required.''\<rparr>, [])
     \<and> snd (handleNextClick onNext st) = []
     \<and> error (fst (handleNextClick onNext st)) = js ''Contact info is required.''
     \<and> contactInfo (fst (handleNextClick onNext st)) = contactInfo st
     \<and> selectedMaterials (fst (handleNextClick onNext st)) = selectedMaterials st
     \<and> selectedPreferences (fst (handleNextClick onNext st)) = selectedPreferences st"
  by (simp add: handleNextClick_def)

theorem handleNextClick_empty_witness:
  "trim (js ''   '') = []
   \<and> handleNextClick True
        \<lparr>selectedMaterials = 0, selectedPreferences = 1, contactInfo = js ''   '', error = []\<rparr>
     = (\<lparr>selectedMaterials = 0, selectedPreferences = 1, contactInfo = js ''   '',
         error = js ''Contact info is required.''\<rparr>, [])"
proof -
  have t: "trim (js ''   '') = []" by (simp add: js_def trim_def char_defs)
  show ?thesis
    using t handleNextClick_empty [of "\<lparr>selectedMaterials = 0, selectedPreferences = 1,
      contactInfo = js ''   '', error = []\<rparr>" True]
    by simp
qed

text \<open>
  C4, as stated, fails: with the phone pattern worded as in C1 (the space character
  only), \<^verbatim>\<open>"123\t4567"\<close> is not empty and matches neither pattern, yet the click
  sets no error and calls \<open>onNext\<close>, because the phone pattern of the source accepts
  the tab.
\<close>

theorem handleNextClick_invalid_counterexample:
  "trim [0x31, 0x32, 0x33, 0x09, 0x34, 0x35, 0x36, 0x37] \<noteq> []
   \<and> \<not> email_pattern (trim [0x31, 0x32, 0x33, 0x09, 0x34, 0x35, 0x36, 0x37])
   \<and> \<not> phone_pattern is_space (trim [0x31, 0x32, 0x33, 0x09, 0x34, 0x35, 0x36, 0x37])
   \<and> handleNextClick True
        \<lparr>selectedMaterials = 0, selectedPreferences = Suc 0,
         contactInfo = [0x31, 0x32, 0x33, 0x09, 0x34, 0x35, 0x36, 0x37], error = []\<rparr>
     = (\<lparr>selectedMaterials = 0, selectedPreferences = Suc 0,
         contactInfo = [0x31, 0x32, 0x33, 0x09, 0x34, 0x35, 0x36, 0x37], error = []\<rparr>,
        [\<lparr>data_contactInfo = [0x31, 0x32, 0x33, 0x09, 0x34, 0x35, 0x36, 0x37],
          data_selectedMaterials = 0, data_selectedPreferences = Suc 0\<rparr>])
   \<and> error (fst (handleNextClick True
        \<lparr>selectedMaterials = 0, selectedPreferences = Suc 0,
         contactInfo = [0x31, 0x32, 0x33, 0x09, 0x34, 0x35, 0x36, 0x37], error = []\<rparr>))
     \<noteq> js ''Please enter a valid phone number or email address.''"
proof -
  let ?s = "[0x31, 0x32, 0x33, 0x09, 0x34, 0x35, 0x36, 0x37] :: jsstring"
  let ?st = "\<lparr>selectedMaterials = 0, selectedPreferences = Suc 0, contactInfo = ?s,
    error = []\<rparr>"
  have t: "trim ?s = ?s" by (simp add: trim_def char_defs)
  have v: "validateContactInfo ?s"
    by (simp add: validateContactInfo_def t) (simp add: char_defs regexp_defs)
  have e: "\<not> email_pattern ?s" using email_pattern_at [of ?s] by auto
  have p: "\<not> phone_pattern is_space ?s"
    using phone_pattern_chars [of is_space ?s] by (auto simp: phone_char_def is_space_def char_defs)
  have r: "handleNextClick True ?st =
    (?st, [\<lparr>data_contactInfo = ?s, data_selectedMaterials = 0,
            data_selectedPreferences = Suc 0\<rparr>])"
    using v by (simp add: handleNextClick_def t)
  have m: "js ''Please enter a valid phone number or email address.'' \<noteq> []"
    by (simp add: js_def)
  have "error (fst (handleNextClick True ?st))
    \<noteq> js ''Please enter a valid phone number or email address.''"
    using m by (simp add: r)
  with e p r show ?thesis by (simp add: t)
qed

text \<open>
  C4, amended: when the trimmed contact info is not empty and matches neither the email
  pattern nor the phone pattern, the phone pattern's characters being digits, white
  space (every character \<open>\s\<close> matches), hyphen, parentheses and dot, the click sets
  the error to "Please enter a valid phone number or email address." and calls
  \<open>onNext\<close> not at all; \<^verbatim>\<open>"not-an-email"\<close> is such an input.
\<close>

theorem handleNextClick_invalid:
  "(trim (contactInfo st) \<noteq> [] \<and> \<not> email_pattern (trim (contactInfo st))
      \<and> \<not> phone_pattern is_whitespace (trim (contactInfo st)) \<longrightarrow>
      handleNextClick onNext st =
        (st\<lparr>error := js ''Please enter a valid phone number or email address.''\<rparr>, []))
   \<and> handleNextClick onNext (st\<lparr>contactInfo := js ''not-an-email''\<rparr>) =
        (st\<lparr>contactInfo := js ''not-an-email'',
            error := js ''Please enter a valid phone number or email address.''\<rparr>, [])"
proof (intro conjI impI)
  assume a: "trim (contactInfo st) \<noteq> [] \<and> \<not> email_pattern (trim (contactInfo st))
      \<and> \<not> phone_pattern is_whitespace (trim (contactInfo st))"
  then have "\<not> validateContactInfo (trim (contactInfo st))"
    by (simp add: validateContactInfo_def trim_idem emailRegex_test phoneRegex_test)
  with a show "handleNextClick onNext st =
        (st\<lparr>error := js ''Please enter a valid phone number or email address.''\<rparr>, [])"
    by (simp add: handleNextClick_def)
next
  have t: "trim (js ''not-an-email'') = js ''not-an-email''"
    by (simp add: js_def trim_def char_defs)
  have v: "\<not> validateContactInfo (js ''not-an-email'')" by (simp add: eval_defs)
  have ne: "js ''not-an-email'' \<noteq> []" by (simp add: js_def)
  show "handleNextClick onNext (st\<lparr>contactInfo := js ''not-an-email''\<rparr>) =
        (st\<lparr>contactInfo := js ''not-an-email'',
            error := js ''Please enter a valid phone number or email address.''\<rparr>, [])"
    using v ne by (simp add: handleNextClick_def t)
qed

theorem handleNextClick_invalid_witness:
  "trim (js ''12345'') \<noteq> [] \<and> \<not> email_pattern (trim (js ''12345''))
   \<and> \<not> phone_pattern is_whitespace (trim (js ''12345''))
   \<and> handleNextClick True
        \<lparr>selectedMaterials = 0, selectedPreferences = 1, contactInfo = js ''12345'', error = []\<rparr>
     = (\<lparr>selectedMaterials = 0, selectedPreferences = 1, contactInfo = js ''12345'',
         error = js ''Please enter a valid phone number or email address.''\<rparr>, [])"
proof -
  have t: "trim (js ''12345'') = js ''12345''" by (simp add: js_def trim_def char_defs)
  have "js ''12345'' \<noteq> [] \<and> \<not> regexp_test emailRegex (js ''12345'')
    \<and> \<not> regexp_test phoneRegex (js ''12345'')"
    by (simp add: js_def char_defs regexp_defs)
  then have h: "js ''12345'' \<noteq> [] \<and> \<not> email_pattern (js ''12345'')
    \<and> \<not> phone_pattern is_whitespace (js ''12345'')"
    by (simp add: emailRegex_test phoneRegex_test)
  show ?thesis
    using h handleNextClick_invalid [of "\<lparr>selectedMaterials = 0, selectedPreferences = 1,
      contactInfo = js ''12345'', error = []\<rparr>" True]
    by (simp add: t)
qed

section \<open>Claims about the dropdown\<close>

lemma handleOptionClick_eq:
  "handleOptionClick a v h =
     (length h, h @ [if v \<in> set (h ! a) then filter (\<lambda>x. x \<noteq> v) (h ! a) else h ! a @ [v]])"
  by (simp add: handleOptionClick_def array_includes_def array_filter_def array_spread_with_def)

lemma filter_remove_distinct:
  "distinct (ys @ v # zs) \<Longrightarrow> filter (\<lambda>x. x \<noteq> v) (ys @ v # zs) = ys @ zs"
proof -
  assume d: "distinct (ys @ v # zs)"
  then have "filter (\<lambda>x. x \<noteq> v) ys = ys" "filter (\<lambda>x. x \<noteq> v) zs = zs"
    by (auto simp: filter_id_conv)
  then show ?thesis by simp
qed

lemma distinct_toggled:
  "distinct xs \<Longrightarrow> distinct (if v \<in> set xs then filter (\<lambda>x. x \<noteq> v) xs else xs @ [v])"
  by simp

text \<open>
  C5: toggling a value of a duplicate-free selection allocates a new array and passes it
  to the setter; no array allocated before, the input among them, is changed. If the
  value was absent, the new array is the old one with the value appended; if it was
  present, the new array is the old one without that element, the others in their order.
\<close>

theorem handleOptionClick_toggle:
  assumes "a < length h" and "distinct (h ! a)" and "handleOptionClick a v h = (a', h')"
  shows "a' \<noteq> a \<and> a' = length h \<and> length h' = Suc (length h)
    \<and> (\<forall>b. b < length h \<longrightarrow> h' ! b = h ! b)
    \<and> (v \<notin> set (h ! a) \<longrightarrow> h' ! a' = h ! a @ [v])
    \<and> (h ! a = ys @ v # zs \<longrightarrow> h' ! a' = ys @ zs)"
proof -
  from assms(3) have a': "a' = length h"
    and h': "h' = h @ [if v \<in> set (h ! a) then filter (\<lambda>x. x \<noteq> v) (h ! a) else h ! a @ [v]]"
    by (simp_all add: handleOptionClick_eq)
  have "h ! a = ys @ v # zs \<longrightarrow> h' ! a' = ys @ zs"
  proof
    assume e: "h ! a = ys @ v # zs"
    with assms(2) have "filter (\<lambda>x. x \<noteq> v) (h ! a) = ys @ zs"
      by (simp only: filter_remove_distinct)
    with e show "h' ! a' = ys @ zs" by (simp add: a' h')
  qed
  moreover have "\<forall>b. b < length h \<longrightarrow> h' ! b = h ! b" by (simp add: h' nth_append)
  moreover have "v \<notin> set (h ! a) \<longrightarrow> h' ! a' = h ! a @ [v]" by (simp add: a' h')
  ultimately show ?thesis using assms(1) by (simp add: a' h')
qed

theorem handleOptionClick_toggle_witness:
  "(0::nat) < length [[js ''javascript'', js ''react'']]
   \<and> distinct ([[js ''javascript'', js ''react'']] ! 0)
   \<and> handleOptionClick 0 (js ''javascript'') [[js ''javascript'', js ''react'']]
       = (Suc 0, [[js ''javascript'', js ''react''], [js ''react'']])
   \<and> [[js ''javascript'', js ''react''], [js ''react'']] ! 0 = [js ''javascript'', js ''react'']
   \<and> [[js ''javascript'', js ''react''], [js ''react'']] ! Suc 0 = [] @ [js ''react'']"
proof -
  have 1: "(0::nat) < length [[js ''javascript'', js ''react'']]" by simp
  have 2: "distinct ([[js ''javascript'', js ''react'']] ! 0)" by (simp add: js_def)
  have 3: "handleOptionClick 0 (js ''javascript'') [[js ''javascript'', js ''react'']]
       = (Suc 0, [[js ''javascript'', js ''react''], [js ''react'']])"
    by (simp add: handleOptionClick_def array_includes_def array_filter_def js_def)
  from handleOptionClick_toggle [OF 1 2 3, of "[]" "[js ''react'']"]
  have "[[js ''javascript'', js ''react''], [js ''react'']] ! 0 = [js ''javascript'', js ''react'']
    \<and> [[js ''javascript'', js ''react''], [js ''react'']] ! Suc 0 = [] @ [js ''react'']"
    by simp
  with 1 2 3 show ?thesis by blast
qed

text \<open>
  C6, as stated, fails: toggling \<open>javascript\<close> twice in the selection
  \<open>[javascript, react]\<close> gives \<open>[react, javascript]\<close>.
\<close>

theorem toggleOption_twice_counterexample:
  "selection (toggleOption (js ''javascript'')
      (toggleOption (js ''javascript'') (0, [[js ''javascript'', js ''react'']])))
   = [js ''react'', js ''javascript'']
   \<and> selection (toggleOption (js ''javascript'')
      (toggleOption (js ''javascript'') (0, [[js ''javascript'', js ''react'']])))
   \<noteq> selection (0, [[js ''javascript'', js ''react'']])"
  by (simp add: selection_def toggleOption_def handleOptionClick_eq js_def)

text \<open>
  C6, amended: toggling the same value twice returns a duplicate-free selection to its
  original contents. The order is the original one when the value was absent, or was
  the last element; a value that was present elsewhere moves to the end, and the others
  keep their order.
\<close>

theorem toggleOption_twice:
  assumes "distinct (h ! a)"
  shows "set (selection (toggleOption v (toggleOption v (a, h)))) = set (h ! a)
    \<and> (v \<notin> set (h ! a) \<longrightarrow> selection (toggleOption v (toggleOption v (a, h))) = h ! a)
    \<and> (h ! a = ys @ [v] \<longrightarrow> selection (toggleOption v (toggleOption v (a, h))) = h ! a)
    \<and> (h ! a = ys @ v # zs \<longrightarrow>
         selection (toggleOption v (toggleOption v (a, h))) = ys @ zs @ [v])"
proof -
  have r: "selection (toggleOption v (toggleOption v (a, h))) =
    (if v \<in> set (h ! a) then filter (\<lambda>x. x \<noteq> v) (h ! a) @ [v] else h ! a)"
    by (auto simp: selection_def toggleOption_def handleOptionClick_eq filter_id_conv nth_append)
  have f: "h ! a = ys @ v # zs \<Longrightarrow> filter (\<lambda>x. x \<noteq> v) (h ! a) = ys @ zs" for ys zs
    using assms by (simp only: filter_remove_distinct)
  have 1: "set (selection (toggleOption v (toggleOption v (a, h)))) = set (h ! a)"
    unfolding r by auto
  have 2: "v \<notin> set (h ! a) \<longrightarrow> selection (toggleOption v (toggleOption v (a, h))) = h ! a"
    unfolding r by simp
  have 3: "h ! a = ys @ [v] \<longrightarrow> selection (toggleOption v (toggleOption v (a, h))) = h ! a"
    unfolding r using f [of ys "[]"] by auto
  have 4: "h ! a = ys @ v # zs \<longrightarrow>
         selection (toggleOption v (toggleOption v (a, h))) = ys @ zs @ [v]"
    unfolding r using f [of ys zs] by auto
  from 1 2 3 4 show ?thesis by blast
qed

theorem toggleOption_twice_witness:
  "distinct ([[js ''javascript'', js ''react'']] ! 0)
   \<and> set (selection (toggleOption (js ''javascript'')
        (toggleOption (js ''javascript'') (0, [[js ''javascript'', js ''react'']]))))
     = set ([[js ''javascript'', js ''react'']] ! 0)
   \<and> selection (toggleOption (js ''javascript'')
        (toggleOption (js ''javascript'') (0, [[js ''javascript'', js ''react'']])))
     = [] @ [js ''react''] @ [js ''javascript'']"
proof -
  have d: "distinct ([[js ''javascript'', js ''react'']] ! 0)" by (simp add: js_def)
  from toggleOption_twice [OF d, of "js ''javascript''" "[]" "[js ''react'']"]
  show ?thesis using d by auto
qed

lemma mount_ok: "selections_ok (mount h)"
  by (simp add: selections_ok_def mount_def nth_append)

lemma toggle_step_ok: "selections_ok s \<Longrightarrow> selections_ok (toggle_step e s)"
proof -
  assume ok: "selections_ok s"
  obtain st h where s: "s = (st, h)" by (cases s)
  show ?thesis
  proof (cases e)
    case (ToggleMaterial v)
    with ok s distinct_toggled [of "h ! selectedMaterials st" v] show ?thesis
      by (simp add: selections_ok_def toggleOption_def handleOptionClick_eq nth_append)
  next
    case (TogglePreference v)
    with ok s distinct_toggled [of "h ! selectedPreferences st" v] show ?thesis
      by (simp add: selections_ok_def toggleOption_def handleOptionClick_eq nth_append)
  qed
qed

lemma toggles_ok: "selections_ok s \<Longrightarrow> selections_ok (toggles es s)"
  by (induction es arbitrary: s) (simp_all add: toggle_step_ok)

text \<open>
  C7: both selections are empty arrays at mount, and after any sequence of toggles in
  the two dropdowns neither selection holds a value twice.
\<close>

theorem selections_distinct:
  "selection (selectedMaterials (fst (mount h0)), snd (mount h0)) = []
   \<and> selection (selectedPreferences (fst (mount h0)), snd (mount h0)) = []
   \<and> (toggles es (mount h0) = (st, h) \<longrightarrow>
        distinct (selection (selectedMaterials st, h))
        \<and> distinct (selection (selectedPreferences st, h)))"
proof -
  have "selections_ok (toggles es (mount h0))" using mount_ok by (rule toggles_ok)
  then have "toggles es (mount h0) = (st, h) \<longrightarrow>
        distinct (selection (selectedMaterials st, h))
        \<and> distinct (selection (selectedPreferences st, h))"
    by (auto simp: selections_ok_def selection_def)
  then show ?thesis by (simp add: mount_def selection_def nth_append)
qed

theorem selections_distinct_witness:
  "toggles [ToggleMaterial (js ''javascript''), ToggleMaterial (js ''react''),
            ToggleMaterial (js ''javascript'')] (mount [])
     = (\<lparr>selectedMaterials = 4, selectedPreferences = Suc 0, contactInfo = [], error = []\<rparr>,
        [[], [], [js ''javascript''], [js ''javascript'', js ''react''], [js ''react'']])
   \<and> distinct (selection (4, [[], [], [js ''javascript''], [js ''javascript'', js ''react''],
        [js ''react'']]))
   \<and> distinct (selection (Suc 0, [[], [], [js ''javascript''], [js ''javascript'', js ''react''],
        [js ''react'']]))"
proof -
  have r: "toggles [ToggleMaterial (js ''javascript''), ToggleMaterial (js ''react''),
            ToggleMaterial (js ''javascript'')] (mount [])
     = (\<lparr>selectedMaterials = 4, selectedPreferences = Suc 0, contactInfo = [], error = []\<rparr>,
        [[], [], [js ''javascript''], [js ''javascript'', js ''react''], [js ''react'']])"
    by (simp add: mount_def toggleOption_def handleOptionClick_eq js_def)
  from selections_distinct [of "[]" "[ToggleMaterial (js ''javascript''),
      ToggleMaterial (js ''react''), ToggleMaterial (js ''javascript'')]"
      "\<lparr>selectedMaterials = 4, selectedPreferences = Suc 0, contactInfo = [], error = []\<rparr>"
      "[[], [], [js ''javascript''], [js ''javascript'', js ''react''], [js ''react'']]"]
  show ?thesis using r by simp
qed

text \<open>
  C8: in a dropdown with no timer pending, leave, leave, enter: the second leave
  overwrites \<open>closeTimeoutRef\<close> without clearing the first timer, so enter clears the
  second timer only and the first one is still pending; when it fires, it closes the
  list although the pointer is inside.
\<close>

theorem leave_leave_enter_pending:
  "handleMouseEnter (handleMouseLeave (handleMouseLeave
      (\<lparr>isOpen = True, closeTimeoutRef = None\<rparr>, \<lparr>pending = [], last_handle = 0\<rparr>)))
   = (\<lparr>isOpen = True, closeTimeoutRef = None\<rparr>, \<lparr>pending = [(1, 300)], last_handle = 2\<rparr>)
   \<and> timer_fires 1 (handleMouseEnter (handleMouseLeave (handleMouseLeave
      (\<lparr>isOpen = True, closeTimeoutRef = None\<rparr>, \<lparr>pending = [], last_handle = 0\<rparr>))))
   = (\<lparr>isOpen = False, closeTimeoutRef = None\<rparr>, \<lparr>pending = [], last_handle = 2\<rparr>)"
  by (simp add: handleMouseEnter_def handleMouseLeave_def setTimeout_def clearTimeout_def
      timer_fires_def)

text \<open>
  What does hold of the close delay: a leave adds one pending timer of 300 ms and keeps
  its handle; an enter after it clears that timer and forgets the handle.
\<close>

lemma handleMouseLeave_schedules:
  "handleMouseLeave (d, t) =
     (d\<lparr>closeTimeoutRef := Some (Suc (last_handle t))\<rparr>,
      t\<lparr>pending := pending t @ [(Suc (last_handle t), 300)], last_handle := Suc (last_handle t)\<rparr>)"
  by (simp add: handleMouseLeave_def setTimeout_def)

lemma handleMouseEnter_cancels:
  "closeTimeoutRef d = Some (Suc n) \<Longrightarrow>
   handleMouseEnter (d, t) = (d\<lparr>closeTimeoutRef := None\<rparr>, clearTimeout (Suc n) t)
   \<and> Suc n \<notin> fst ` set (pending (snd (handleMouseEnter (d, t))))"
  by (auto simp: handleMouseEnter_def clearTimeout_def)

lemma leave_twice_stacks:
  "pending (snd (handleMouseLeave (handleMouseLeave (d, t)))) =
     pending t @ [(Suc (last_handle t), 300), (Suc (Suc (last_handle t)), 300)]"
  by (simp add: handleMouseLeave_def setTimeout_def)

text \<open>
  C9, as stated, fails: with an empty option list and an empty selection there is no
  first option to show, and reading \<^verbatim>\<open>options[0].text\<close> throws instead of
  rendering a header.
\<close>

theorem render_header_closed_counterexample:
  "[[]] ! 0 = ([] :: jsstring list) \<and> render_header [] 0 [[]] = Inl TypeError"
  by (simp add: render_header_def)

text \<open>
  C9, amended: the closed header. With an empty selection and an option list that has a
  first option, it is the placeholder with the text of the first option. With a
  non-empty selection and any option list, it is one chip for each selected value, in
  the order of the selection; the label of a chip is the text of the first option with
  the chip's value, and the value itself when no option has it.
\<close>

theorem render_header_closed:
  "(h ! a = [] \<and> options \<noteq> [] \<longrightarrow>
      render_header options a h = Inr (Placeholder (opt_text (hd options))))
   \<and> (h ! a \<noteq> [] \<longrightarrow>
      (\<exists>chips. render_header options a h = Inr (Chips chips)
         \<and> length chips = length (h ! a)
         \<and> (\<forall>i<length (h ! a).
              chip_key (chips ! i) = h ! a ! i
              \<and> ((\<forall>opt\<in>set options. opt_value opt \<noteq> h ! a ! i) \<longrightarrow>
                   chip_label (chips ! i) = h ! a ! i)
              \<and> (\<forall>j<length options.
                   opt_value (options ! j) = h ! a ! i
                   \<and> (\<forall>k<j. opt_value (options ! k) \<noteq> h ! a ! i) \<longrightarrow>
                   chip_label (chips ! i) = opt_text (options ! j)))))"
proof (intro conjI impI)
  assume "h ! a = [] \<and> options \<noteq> []"
  then show "render_header options a h = Inr (Placeholder (opt_text (hd options)))"
    by (cases options) (simp_all add: render_header_def)
next
  assume ne: "h ! a \<noteq> []"
  have none: "(\<forall>opt\<in>set options. opt_value opt \<noteq> v) \<Longrightarrow> chip_label (render_chip options v) = v" for v
  proof -
    assume "\<forall>opt\<in>set options. opt_value opt \<noteq> v"
    then have "find (\<lambda>opt. opt_value opt = v) options = None" by (simp add: find_None_iff)
    then show ?thesis by (simp add: render_chip_def Let_def)
  qed
  have some: "chip_label (render_chip options v) = opt_text (options ! j)"
    if "j < length options" "opt_value (options ! j) = v" "\<forall>k<j. opt_value (options ! k) \<noteq> v"
    for v j
  proof -
    from that have "find (\<lambda>opt. opt_value opt = v) options = Some (options ! j)"
      unfolding find_Some_iff by blast
    then show ?thesis by (simp add: render_chip_def Let_def)
  qed
  have key: "chip_key (render_chip options v) = v" for v
    by (simp add: render_chip_def Let_def)
  let ?chips = "map (render_chip options) (h ! a)"
  have "render_header options a h = Inr (Chips ?chips)"
    using ne by (simp add: render_header_def)
  moreover have "length ?chips = length (h ! a)" by simp
  moreover have "\<forall>i<length (h ! a).
              chip_key (?chips ! i) = h ! a ! i
              \<and> ((\<forall>opt\<in>set options. opt_value opt \<noteq> h ! a ! i) \<longrightarrow>
                   chip_label (?chips ! i) = h ! a ! i)
              \<and> (\<forall>j<length options.
                   opt_value (options ! j) = h ! a ! i
                   \<and> (\<forall>k<j. opt_value (options ! k) \<noteq> h ! a ! i) \<longrightarrow>
                   chip_label (?chips ! i) = opt_text (options ! j))"
    using none some key by simp
  ultimately show "\<exists>chips. render_header options a h = Inr (Chips chips)
         \<and> length chips = length (h ! a)
         \<and> (\<forall>i<length (h ! a).
              chip_key (chips ! i) = h ! a ! i
              \<and> ((\<forall>opt\<in>set options. opt_value opt \<noteq> h ! a ! i) \<longrightarrow>
                   chip_label (chips ! i) = h ! a ! i)
              \<and> (\<forall>j<length options.
                   opt_value (options ! j) = h ! a ! i
                   \<and> (\<forall>k<j. opt_value (options ! k) \<noteq> h ! a ! i) \<longrightarrow>
                   chip_label (chips ! i) = opt_text (options ! j)))"
    by blast
qed

theorem render_header_closed_witness:
  "[[], [js ''react'', js ''vue'']] ! 0 = ([] :: jsstring list) \<and> materialOptions \<noteq> []
   \<and> render_header materialOptions 0 [[], [js ''react'', js ''vue'']]
       = Inr (Placeholder (js ''JavaScript''))
   \<and> [[], [js ''react'', js ''vue'']] ! Suc 0 \<noteq> []
   \<and> (\<exists>c1 c2. render_header materialOptions (Suc 0) [[], [js ''react'', js ''vue'']]
          = Inr (Chips [c1, c2])
        \<and> chip_label c1 = js ''React'' \<and> chip_label c2 = js ''vue'')"
proof -
  let ?h = "[[], [js ''react'', js ''vue'']] :: heap"
  have p: "render_header materialOptions 0 ?h = Inr (Placeholder (opt_text (hd materialOptions)))"
    using render_header_closed [of ?h 0 materialOptions] by (simp add: materialOptions_def)
  from render_header_closed [of ?h "Suc 0" materialOptions]
  obtain chips where c: "render_header materialOptions (Suc 0) ?h = Inr (Chips chips)"
    "length chips = 2"
    and l: "\<forall>i<2. chip_key (chips ! i) = ?h ! Suc 0 ! i
              \<and> ((\<forall>opt\<in>set materialOptions. opt_value opt \<noteq> ?h ! Suc 0 ! i) \<longrightarrow>
                   chip_label (chips ! i) = ?h ! Suc 0 ! i)
              \<and> (\<forall>j<length materialOptions.
                   opt_value (materialOptions ! j) = ?h ! Suc 0 ! i
                   \<and> (\<forall>k<j. opt_value (materialOptions ! k) \<noteq> ?h ! Suc 0 ! i) \<longrightarrow>
                   chip_label (chips ! i) = opt_text (materialOptions ! j))"
    by auto
  from c(2) obtain c1 c2 where cs: "chips = [c1, c2]"
    by (cases chips; cases "tl chips"; cases "tl (tl chips)") auto
  from l [rule_format, of 0] have "chip_label c1 = js ''React''"
    using cs by (simp add: materialOptions_def js_def) (auto simp: less_Suc_eq)
  moreover from l [rule_format, of 1] have "chip_label c2 = js ''vue''"
    using cs by (simp add: materialOptions_def js_def)
  ultimately show ?thesis using p c cs by (simp add: materialOptions_def)
qed

end
